theory Spec2Isabelle
  imports Complex_Main "HOL-Library.Multiset"
begin

section \<open>Values shared by the batch engine\<close>

text \<open>
  Python \<open>bytes\<close> are lists of 8-bit characters, a \<open>str\<close> that is a path, an input or
  a message is a \<open>string\<close>, Python's unbounded \<open>int\<close> is \<open>int\<close>. An exception object carried as a value (the \<open>error\<close> slot of a
  result) is kept by its message. Exceptions that are raised are the \<open>Inl\<close> side of a sum.
\<close>

type_synonym bytes = string

datatype exn = Exn string

datatype error =
    ValueError string
  | IndexError
  | TypeError
  | AttributeError
  | OverflowError
  | JSONDecodeError
  | UnicodeDecodeError
  | FileExistsError
  | IsADirectoryError
  | Raised exn

record BatchResult =
  index :: int
  input :: string
  body :: bytes
  status_code :: int
  error :: "exn option"

text \<open>Decimal rendering of an integer, as \<open>str(n)\<close> and an f-string \<open>{n}\<close> produce it.\<close>

definition digit :: "nat \<Rightarrow> char" where
  "digit d = ''0123456789'' ! d"

fun str_nat :: "nat \<Rightarrow> string" where
  "str_nat n = (if n < 10 then [digit n] else str_nat (n div 10) @ [digit (n mod 10)])"

definition str_int :: "int \<Rightarrow> string" where
  "str_int i = (if i < 0 then CHR ''-'' # str_nat (nat (- i)) else str_nat (nat i))"

section \<open>Run validator and concurrency resolver (batch.py)\<close>

text \<open>
  The usage information is a Python dict; \<open>usage.get(key, default)\<close> is \<open>dict_get\<close>.
\<close>

type_synonym usage = "string \<rightharpoonup> int"

definition dict_get :: "('k \<rightharpoonup> 'v) \<Rightarrow> 'k \<Rightarrow> 'v \<Rightarrow> 'v" where
  "dict_get m k d = (case m k of None \<Rightarrow> d | Some v \<Rightarrow> v)"

definition plan_limit_message :: "int \<Rightarrow> int \<Rightarrow> string" where
  "plan_limit_message user_concurrency max_concurrency =
     ''concurrency '' @ str_int user_concurrency @ '' exceeds your plan limit of ''
       @ str_int max_concurrency @ '' (check with: scrapingbee usage)''"

definition credits_message :: "int \<Rightarrow> int \<Rightarrow> string" where
  "credits_message num_inputs credits =
     ''not enough credits: '' @ str_int num_inputs @ '' requested, ''
       @ str_int credits @ '' available (check with: scrapingbee usage)''"

definition validate_batch_run :: "int \<Rightarrow> int \<Rightarrow> usage \<Rightarrow> error + unit" where
  "validate_batch_run user_concurrency num_inputs usage =
     (let max_concurrency = dict_get usage ''max_concurrency'' 5 in
      if user_concurrency > 0 \<and> user_concurrency > max_concurrency
      then Inl (ValueError (plan_limit_message user_concurrency max_concurrency))
      else
        let credits = dict_get usage ''credits'' 0 in
        if credits > 0 \<and> num_inputs > credits
        then Inl (ValueError (credits_message num_inputs credits))
        else Inr ())"

definition resolve_batch_concurrency :: "int \<Rightarrow> usage \<Rightarrow> int \<Rightarrow> int" where
  "resolve_batch_concurrency user_concurrency usage num_inputs =
     (if user_concurrency > 0 then user_concurrency
      else dict_get usage ''max_concurrency'' 5)"

section \<open>Batch executor (batch.py)\<close>

text \<open>
  The worker \<open>fn\<close> either raises (\<open>Inl\<close>) or returns a triple. \<open>do_one\<close> is the closure
  submitted to the pool for position \<open>i\<close>.
\<close>

type_synonym worker = "string \<Rightarrow> exn + (bytes \<times> int \<times> exn option)"

definition do_one :: "worker \<Rightarrow> nat \<Rightarrow> string \<Rightarrow> exn + (nat \<times> BatchResult)" where
  "do_one fn i inp =
     (case fn inp of
        Inl e \<Rightarrow> Inl e
      | Inr (b, code, err) \<Rightarrow>
          Inr (i, \<lparr>index = int i, input = inp, body = b,
                   status_code = code, error = err\<rparr>))"

text \<open>
  \<open>results[result.index] = result\<close>: Python raises IndexError outside the list
  (negative indices count from the end).
\<close>

definition store_result ::
  "BatchResult option list \<Rightarrow> BatchResult \<Rightarrow> error + BatchResult option list" where
  "store_result results r =
     (let n = int (length results); j = (if index r < 0 then n + index r else index r)
      in if 0 \<le> j \<and> j < n then Inr (results[nat j := Some r]) else Inl IndexError)"

text \<open>
  The loop over \<open>as_completed(futures)\<close>. Its argument \<open>completed\<close> is the list of the
  submitted calls \<open>(i, inp)\<close> in the order in which they finish; \<open>future.result()\<close>
  re-raises what the worker raised.
\<close>

fun collect ::
  "worker \<Rightarrow> (nat \<times> string) list \<Rightarrow> BatchResult option list \<Rightarrow> error + BatchResult option list"
where
  "collect fn [] results = Inr results"
| "collect fn ((i, inp) # completed) results =
     (case do_one fn i inp of
        Inl e \<Rightarrow> Inl (Raised e)
      | Inr (_, result) \<Rightarrow>
          (case store_result results result of
             Inl e \<Rightarrow> Inl e
           | Inr results' \<Rightarrow> collect fn completed results'))"

text \<open>\<open>min(concurrency or 1, len(inputs))\<close>: \<open>or\<close> replaces only the falsy value 0.\<close>

definition pool_size :: "int \<Rightarrow> nat \<Rightarrow> int" where
  "pool_size concurrency num_inputs =
     min (if concurrency = 0 then 1 else concurrency) (int num_inputs)"

text \<open>
  \<open>as_completed(futures)\<close> yields every submitted call once, in the order in which the
  calls finish. The schedule is the function \<open>finish\<close>: \<open>finish i\<close> is the time at which
  the call for position \<open>i\<close> finishes. Every function \<open>finish\<close> is a schedule, and every
  order of the calls is the order of some schedule (lemma \<open>as_completed_any_order\<close>).
\<close>

definition as_completed :: "(nat \<Rightarrow> nat) \<Rightarrow> (nat \<times> string) list \<Rightarrow> (nat \<times> string) list" where
  "as_completed finish futures = sort_key (\<lambda>(i, inp). finish i) futures"

text \<open>
  \<open>ThreadPoolExecutor(max_workers=n)\<close> raises ValueError unless \<open>n\<close> is positive. The
  calls submitted are \<open>do_one(i, inp)\<close> for \<open>i, inp in enumerate(inputs)\<close>.
\<close>

definition run_batch ::
  "string list \<Rightarrow> int \<Rightarrow> worker \<Rightarrow> (nat \<Rightarrow> nat) \<Rightarrow> error + BatchResult list" where
  "run_batch inputs concurrency fn finish =
     (let concurrency' = pool_size concurrency (length inputs);
          results = replicate (length inputs) None
      in if concurrency' \<le> 0 then Inl (ValueError ''max_workers must be greater than 0'')
         else
           let futures = enumerate 0 inputs
           in case collect fn (as_completed finish futures) results of
                Inl e \<Rightarrow> Inl e
              | Inr results' \<Rightarrow> Inr (map the (filter (\<lambda>r. r \<noteq> None) results')))"

text \<open>The record \<open>do_one\<close> builds for position \<open>i\<close> when the worker returns \<open>t\<close>.\<close>

definition result_for :: "nat \<Rightarrow> string \<Rightarrow> bytes \<times> int \<times> exn option \<Rightarrow> BatchResult" where
  "result_for i inp t =
     \<lparr>index = int i, input = inp, body = fst t, status_code = fst (snd t), error = snd (snd t)\<rparr>"

section \<open>Usage parsing (client.py)\<close>

text \<open>
  What \<open>json.loads\<close> returns: \<open>None\<close>, \<open>bool\<close>, \<open>int\<close>, \<open>float\<close>, \<open>str\<close>, \<open>list\<close> or \<open>dict\<close>.
  A finite float is the rational number it denotes; Python compares floats with integers
  exactly and \<open>int()\<close> truncates exactly, so no rounding enters below. \<open>json.loads\<close> also
  yields the non-finite floats (\<open>Infinity\<close>, \<open>-Infinity\<close>, \<open>NaN\<close>). A dict is the list of
  its items.
\<close>

datatype pyfloat = Finite rat | PosInf | NegInf | NaN

datatype json =
    JNull
  | JBool bool
  | JInt int
  | JFloat pyfloat
  | JString string
  | JArray "json list"
  | JObject "(string \<times> json) list"

text \<open>\<open>d.get(key)\<close> on a dict: the value, or \<open>None\<close> when the key is absent.\<close>

definition items_get :: "(string \<times> json) list \<Rightarrow> string \<Rightarrow> json" where
  "items_get kvs key = (case map_of kvs key of None \<Rightarrow> JNull | Some v \<Rightarrow> v)"

text \<open>\<open>m.get(key)\<close>: only a dict has the attribute \<open>get\<close>.\<close>

fun py_get :: "json \<Rightarrow> string \<Rightarrow> error + json" where
  "py_get (JObject kvs) key = Inr (items_get kvs key)"
| "py_get _ key = Inl AttributeError"

text \<open>\<open>isinstance(v, (int, float))\<close>; \<open>bool\<close> is a subclass of \<open>int\<close>.\<close>

fun is_number :: "json \<Rightarrow> bool" where
  "is_number (JInt _) = True"
| "is_number (JFloat _) = True"
| "is_number (JBool _) = True"
| "is_number _ = False"

fun num_val :: "json \<Rightarrow> pyfloat" where
  "num_val (JInt i) = Finite (of_int i)"
| "num_val (JBool b) = Finite (if b then 1 else 0)"
| "num_val (JFloat f) = f"
| "num_val _ = NaN"

text \<open>The comparisons \<open>c < v\<close>, \<open>v <= c\<close> and \<open>v >= c\<close> of a number with a constant.\<close>

fun const_less :: "rat \<Rightarrow> pyfloat \<Rightarrow> bool" where
  "const_less c (Finite r) = (c < r)"
| "const_less c PosInf = True"
| "const_less c _ = False"

fun less_eq_const :: "pyfloat \<Rightarrow> rat \<Rightarrow> bool" where
  "less_eq_const (Finite r) c = (r \<le> c)"
| "less_eq_const NegInf c = True"
| "less_eq_const _ c = False"

fun greater_eq_const :: "pyfloat \<Rightarrow> rat \<Rightarrow> bool" where
  "greater_eq_const (Finite r) c = (c \<le> r)"
| "greater_eq_const PosInf c = True"
| "greater_eq_const _ c = False"

text \<open>\<open>int(v)\<close>: truncation toward zero; it raises on a non-finite float.\<close>

definition py_trunc :: "rat \<Rightarrow> int" where
  "py_trunc r = (if 0 \<le> r then \<lfloor>r\<rfloor> else \<lceil>r\<rceil>)"

fun py_int :: "json \<Rightarrow> error + int" where
  "py_int (JInt i) = Inr i"
| "py_int (JBool b) = Inr (if b then 1 else 0)"
| "py_int (JFloat (Finite r)) = Inr (py_trunc r)"
| "py_int (JFloat NaN) = Inl (ValueError ''cannot convert float NaN to integer'')"
| "py_int (JFloat _) = Inl OverflowError"
| "py_int _ = Inl TypeError"

definition concurrency_keys :: "string list" where
  "concurrency_keys =
     [''max_concurrency'', ''max_concurrent_requests'', ''concurrent_request_limit'',
      ''concurrency'', ''concurrent_requests'']"

definition credit_keys :: "string list" where
  "credit_keys =
     [''credits'', ''available_credits'', ''credit_balance'', ''balance'',
      ''credits_remaining'', ''remaining_credits'']"

text \<open>The first loop of \<open>parse_usage\<close>: the first key that matches sets the entry and breaks.\<close>

fun concurrency_loop :: "json \<Rightarrow> string list \<Rightarrow> usage \<Rightarrow> error + usage" where
  "concurrency_loop m [] out = Inr out"
| "concurrency_loop m (key # keys) out =
     (case py_get m key of
        Inl e \<Rightarrow> Inl e
      | Inr v \<Rightarrow>
          if v \<noteq> JNull \<and> is_number v \<and> const_less 0 (num_val v) \<and> less_eq_const (num_val v) 10000
          then (case py_int v of
                  Inl e \<Rightarrow> Inl e
                | Inr i \<Rightarrow> Inr (out(''max_concurrency'' \<mapsto> i)))
          else concurrency_loop m keys out)"

text \<open>
  The second loop: the first key that matches sets the entry and returns (\<open>Some\<close>); when
  no key matches the loop falls through (\<open>None\<close>).
\<close>

fun credits_loop :: "json \<Rightarrow> string list \<Rightarrow> usage \<Rightarrow> error + usage option" where
  "credits_loop m [] out = Inr None"
| "credits_loop m (key # keys) out =
     (case py_get m key of
        Inl e \<Rightarrow> Inl e
      | Inr v \<Rightarrow>
          if v \<noteq> JNull \<and> is_number v \<and> greater_eq_const (num_val v) 0
          then (case py_int v of
                  Inl e \<Rightarrow> Inl e
                | Inr i \<Rightarrow> Inr (Some (out(''credits'' \<mapsto> i))))
          else credits_loop m keys out)"

text \<open>The fallback \<open>max_api_credit - used_api_credit\<close> after the second loop.\<close>

definition credits_fallback :: "json \<Rightarrow> usage \<Rightarrow> error + usage" where
  "credits_fallback m out =
     (case py_get m ''max_api_credit'' of
        Inl e \<Rightarrow> Inl e
      | Inr max_credit \<Rightarrow>
          (case py_get m ''used_api_credit'' of
             Inl e \<Rightarrow> Inl e
           | Inr used_credit \<Rightarrow>
               if is_number max_credit \<and> is_number used_credit
               then (case py_int max_credit of
                       Inl e \<Rightarrow> Inl e
                     | Inr a \<Rightarrow>
                         (case py_int used_credit of
                            Inl e \<Rightarrow> Inl e
                          | Inr b \<Rightarrow>
                              let avail = a - b
                              in if avail \<ge> 0 then Inr (out(''credits'' \<mapsto> avail)) else Inr out))
               else Inr out))"

text \<open>
  \<open>parse_usage\<close>. The decoder \<open>json.loads\<close> of the standard library is a parameter: it
  returns the decoded value or raises. Only \<open>JSONDecodeError\<close> is caught. The argument
  \<open>data\<close> is the source's \<open>body\<close>.
\<close>

definition parse_usage :: "(bytes \<Rightarrow> error + json) \<Rightarrow> bytes \<Rightarrow> error + usage" where
  "parse_usage loads data =
     (let out = [''max_concurrency'' \<mapsto> 5, ''credits'' \<mapsto> 0] in
      case loads data of
        Inl e \<Rightarrow> if e = JSONDecodeError then Inr out else Inl e
      | Inr m \<Rightarrow>
          (case concurrency_loop m concurrency_keys out of
             Inl e \<Rightarrow> Inl e
           | Inr out1 \<Rightarrow>
               (case credits_loop m credit_keys out1 of
                  Inl e \<Rightarrow> Inl e
                | Inr (Some out2) \<Rightarrow> Inr out2
                | Inr None \<Rightarrow> credits_fallback m out1)))"








text \<open>
  The values of \<open>json.loads\<close> at the bodies used in the examples below. At any other
  body this decoder raises \<open>JSONDecodeError\<close>: it stands for \<open>json.loads\<close> in those
  examples only.
\<close>

definition loads_example :: "bytes \<Rightarrow> error + json" where
  \<open>loads_example data =
     (if data = ''{"concurrent_requests": 20, "credits_remaining": 150}''
      then Inr (JObject [(''concurrent_requests'', JInt 20), (''credits_remaining'', JInt 150)])
      else if data = ''{"max_api_credit": 1000, "used_api_credit": 400}''
      then Inr (JObject [(''max_api_credit'', JInt 1000), (''used_api_credit'', JInt 400)])
      else if data = ''{"max_concurrency": 2.5}''
      then Inr (JObject [(''max_concurrency'', JFloat (Finite (5 / 2)))])
      else if data = ''{"max_concurrency": 0.5}''
      then Inr (JObject [(''max_concurrency'', JFloat (Finite (1 / 2)))])
      else if data = ''{"max_concurrency": true}''
      then Inr (JObject [(''max_concurrency'', JBool True)])
      else if data = ''{"credits": Infinity}''
      then Inr (JObject [(''credits'', JFloat PosInf)])
      else if data = ''[]'' then Inr (JArray [])
      else if data = ''3'' then Inr (JInt 3)
      else Inl JSONDecodeError)\<close>


section \<open>Input file (batch.py)\<close>

text \<open>
  The content of a text file is a \<open>str\<close> in full: a list of code points. \<open>isspace\<close> is \<open>str.isspace\<close>: the code
  points that \<open>str.strip()\<close> removes.
\<close>

type_synonym unicode = "nat list"

definition isspace :: "nat \<Rightarrow> bool" where
  "isspace c \<longleftrightarrow>
     c \<in> set ([9, 10, 11, 12, 13, 28, 29, 30, 31, 32, 133, 160, 5760] @ [8192..<8203] @
              [8232, 8233, 8239, 8287, 12288])"

text \<open>\<open>s.strip()\<close>: leading, then trailing whitespace is removed.\<close>

definition strip :: "unicode \<Rightarrow> unicode" where
  "strip s = rev (dropWhile isspace (rev (dropWhile isspace s)))"

text \<open>
  \<open>for line in f\<close> on a file opened in text mode with the default \<open>newline=None\<close>: a line
  ends at CR LF, CR or LF (code points 13 and 10), each translated to LF and kept at the
  end of the line; the last line has no end when the file does not end with one.
\<close>

fun readlines :: "unicode \<Rightarrow> unicode list" where
  "readlines [] = []"
| "readlines (c # cs) =
     (if c = 13 \<and> cs \<noteq> [] \<and> hd cs = 10 then [10] # readlines (tl cs)
      else if c = 10 \<or> c = 13 then [10] # readlines cs
      else (case readlines cs of
              [] \<Rightarrow> [[c]]
            | line # rest \<Rightarrow> (c # line) # rest))"

text \<open>The comprehension \<open>[line.strip() for line in f if line.strip()]\<close>.\<close>

definition nonempty_stripped :: "unicode list \<Rightarrow> unicode list" where
  "nonempty_stripped ls = map strip (filter (\<lambda>line. strip line \<noteq> []) ls)"

text \<open>
  \<open>read_input_file\<close>. Opening and decoding the file is a parameter: \<open>read_text path\<close> is
  the decoded content, or the exception that \<open>open\<close> or the decoder raises.
\<close>

definition read_input_file :: "(string \<Rightarrow> error + unicode) \<Rightarrow> string \<Rightarrow> error + unicode list" where
  \<open>read_input_file read_text path =
     (case read_text path of
        Inl e \<Rightarrow> Inl e
      | Inr content \<Rightarrow>
          let lines = nonempty_stripped (readlines content)
          in if lines = []
             then Inl (ValueError (''input file "'' @ path @ ''" has no non-empty lines''))
             else Inr lines)\<close>

text \<open>
  The words of C6: the lines of a text are the runs between line breaks, without the
  breaks.
\<close>

fun split_lines :: "unicode \<Rightarrow> unicode list" where
  "split_lines [] = [[]]"
| "split_lines (c # cs) =
     (if c = 10 \<or> c = 13 then [] # split_lines cs
      else (case split_lines cs of
              [] \<Rightarrow> [[c]]
            | line # rest \<Rightarrow> (c # line) # rest))"

section \<open>Result writer (batch.py)\<close>

text \<open>
  The part of the world the writer touches: the directories that exist, the files with
  their content, and the lines printed to \<open>sys.stderr\<close>.
\<close>

record world =
  dirs :: "string set"
  files :: "string \<rightharpoonup> bytes"
  stderr :: "string list"

text \<open>
  \<open>os.makedirs(path, exist_ok=...)\<close>: a file at the path is an error, an existing
  directory is one unless \<open>exist_ok\<close>. Only the directory itself is tracked, not its
  parents: the writer puts its files directly into it.
\<close>

definition makedirs :: "string \<Rightarrow> bool \<Rightarrow> world \<Rightarrow> error + world" where
  "makedirs path exist_ok w =
     (if files w path \<noteq> None then Inl FileExistsError
      else if path \<in> dirs w then (if exist_ok then Inr w else Inl FileExistsError)
      else Inr (w\<lparr>dirs := insert path (dirs w)\<rparr>))"

text \<open>
  \<open>with open(path, "wb") as f: f.write(data)\<close>: the file is created or truncated and
  holds \<open>data\<close>; opening a directory raises.
\<close>

definition write_bytes :: "string \<Rightarrow> bytes \<Rightarrow> world \<Rightarrow> error + world" where
  "write_bytes path data w =
     (if path \<in> dirs w then Inl IsADirectoryError
      else Inr (w\<lparr>files := (files w)(path \<mapsto> data)\<rparr>))"

text \<open>\<open>print(line, file=sys.stderr)\<close>.\<close>

definition print_stderr :: "string \<Rightarrow> world \<Rightarrow> world" where
  "print_stderr line w = w\<lparr>stderr := stderr w @ [line]\<rparr>"

text \<open>\<open>os.path.join(a, b)\<close> on POSIX.\<close>

definition path_join :: "string \<Rightarrow> string \<Rightarrow> string" where
  "path_join a b =
     (if b \<noteq> [] \<and> hd b = CHR ''/'' then b
      else if a = [] \<or> last a = CHR ''/'' then a @ b
      else a @ ''/'' @ b)"

text \<open>\<open>str(e)\<close> of an exception kept by its message.\<close>

fun str_exn :: "exn \<Rightarrow> string" where
  "str_exn (Exn m) = m"

text \<open>
  \<open>default_batch_output_dir\<close>; \<open>now\<close> is the text
  \<open>datetime.now().strftime("%Y%m%d_%H%M%S")\<close> of the moment of the call.
\<close>

definition default_batch_output_dir :: "string \<Rightarrow> string" where
  "default_batch_output_dir now = ''batch_'' @ now"

text \<open>\<open>output_dir or default\<close>: \<open>None\<close> and the empty string are falsy.\<close>

definition or_default :: "string option \<Rightarrow> string \<Rightarrow> string" where
  "or_default output_dir dflt =
     (case output_dir of None \<Rightarrow> dflt | Some d \<Rightarrow> if d = [] then dflt else d)"

text \<open>
  The loop of \<open>write_batch_output_to_dir\<close> over the results. \<open>repr\<close> is Python's built-in
  of that name, used by \<open>{r.input!r}\<close>.
\<close>

fun write_results ::
  "(string \<Rightarrow> string) \<Rightarrow> string \<Rightarrow> bool \<Rightarrow> BatchResult list \<Rightarrow> world \<Rightarrow> error + world" where
  "write_results repr abs_dir verbose [] w = Inr w"
| "write_results repr abs_dir verbose (r # rs) w =
     (let n = index r + 1 in
      if error r \<noteq> None then
        let w1 = print_stderr (''Item '' @ str_int n @ '' ('' @ repr (input r) @ ''): ''
                                 @ str_exn (the (error r))) w
        in if body r \<noteq> []
           then (let err_path = path_join abs_dir (str_int n @ ''.err'')
                 in case write_bytes err_path (body r) w1 of
                      Inl e \<Rightarrow> Inl e
                    | Inr w2 \<Rightarrow> write_results repr abs_dir verbose rs w2)
           else write_results repr abs_dir verbose rs w1
      else
        let w1 = (if verbose
                  then print_stderr (''Item '' @ str_int n @ '': HTTP '' @ str_int (status_code r)) w
                  else w);
            out_path = path_join abs_dir (str_int n @ ''.txt'')
        in case write_bytes out_path (body r) w1 of
             Inl e \<Rightarrow> Inl e
           | Inr w2 \<Rightarrow> write_results repr abs_dir verbose rs w2)"

text \<open>
  \<open>write_batch_output_to_dir\<close>. \<open>resolve d\<close> is \<open>str(Path(d).resolve())\<close>, the absolute
  path of \<open>d\<close>; it is a parameter, as are \<open>repr\<close> and \<open>now\<close>.
\<close>

definition write_batch_output_to_dir ::
  "(string \<Rightarrow> string) \<Rightarrow> (string \<Rightarrow> string) \<Rightarrow> string \<Rightarrow>
   BatchResult list \<Rightarrow> string option \<Rightarrow> bool \<Rightarrow> world \<Rightarrow> error + (string \<times> world)" where
  "write_batch_output_to_dir repr resolve now results output_dir verbose w =
     (let output_dir' = or_default output_dir (default_batch_output_dir now);
          abs_dir = resolve output_dir'
      in case makedirs abs_dir True w of
           Inl e \<Rightarrow> Inl e
         | Inr w1 \<Rightarrow>
             (case write_results repr abs_dir verbose results w1 of
                Inl e \<Rightarrow> Inl e
              | Inr w2 \<Rightarrow> Inr (abs_dir, w2)))"

text \<open>
  The words of C5: the lines a result sends to the error stream, and the paths of the two
  files that carry its number.
\<close>

definition diagnostic :: "(string \<Rightarrow> string) \<Rightarrow> bool \<Rightarrow> BatchResult \<Rightarrow> string list" where
  "diagnostic repr verbose r =
     (case error r of
        Some e \<Rightarrow> [''Item '' @ str_int (index r + 1) @ '' ('' @ repr (input r) @ ''): '' @ str_exn e]
      | None \<Rightarrow> if verbose
                then [''Item '' @ str_int (index r + 1) @ '': HTTP '' @ str_int (status_code r)]
                else [])"

definition txt_file :: "string \<Rightarrow> BatchResult \<Rightarrow> string" where
  "txt_file abs_dir r = path_join abs_dir (str_int (index r + 1) @ ''.txt'')"

definition err_file :: "string \<Rightarrow> BatchResult \<Rightarrow> string" where
  "err_file abs_dir r = path_join abs_dir (str_int (index r + 1) @ ''.err'')"

text \<open>
  The file a result is written to, with its content, if any; \<open>written\<close> replays the writes
  of a list of results on the files, in order.
\<close>

definition output_file :: "string \<Rightarrow> BatchResult \<Rightarrow> (string \<times> bytes) option" where
  "output_file abs_dir r =
     (if error r = None then Some (txt_file abs_dir r, body r)
      else if body r \<noteq> [] then Some (err_file abs_dir r, body r)
      else None)"

definition written ::
  "string \<Rightarrow> BatchResult list \<Rightarrow> (string \<rightharpoonup> bytes) \<Rightarrow> (string \<rightharpoonup> bytes)" where
  "written abs_dir rs m = fold (\<lambda>(p, b) m. m(p \<mapsto> b)) (List.map_filter (output_file abs_dir) rs) m"

(*DEFS-END*)

section \<open>Properties of the run validator\<close>

text \<open>
  C3. With a usage dict that carries both fields, \<open>validate_batch_run\<close> raises exactly when
  the requested concurrency is positive and above \<open>max_concurrency\<close>, or the credits are
  positive and below the number of inputs. The first error names the requested value and the
  limit, the second the number of inputs and the credits; credits of exactly 0 skip the
  credit check. The function is pure: its only result is the returned value.
\<close>

theorem validate_batch_run_raises_iff:
  assumes mc: "usage ''max_concurrency'' = Some mc"
    and cr: "usage ''credits'' = Some cr"
  shows "((\<exists>e. validate_batch_run uc n usage = Inl e) \<longleftrightarrow>
            (0 < uc \<and> mc < uc) \<or> (0 < cr \<and> cr < n)) \<and>
         (0 < uc \<and> mc < uc \<longrightarrow>
            validate_batch_run uc n usage =
              Inl (ValueError (''concurrency '' @ str_int uc @ '' exceeds your plan limit of ''
                     @ str_int mc @ '' (check with: scrapingbee usage)''))) \<and>
         (\<not> (0 < uc \<and> mc < uc) \<and> 0 < cr \<and> cr < n \<longrightarrow>
            validate_batch_run uc n usage =
              Inl (ValueError (''not enough credits: '' @ str_int n @ '' requested, ''
                     @ str_int cr @ '' available (check with: scrapingbee usage)''))) \<and>
         (cr = 0 \<longrightarrow> ((\<exists>e. validate_batch_run uc n usage = Inl e) \<longleftrightarrow> 0 < uc \<and> mc < uc))"
  using mc cr
  by (auto simp: validate_batch_run_def dict_get_def plan_limit_message_def credits_message_def)

theorem validate_batch_run_raises_iff_witness:
  "validate_batch_run 10 3 [''max_concurrency'' \<mapsto> 5, ''credits'' \<mapsto> 0] =
     Inl (ValueError ''concurrency 10 exceeds your plan limit of 5 (check with: scrapingbee usage)'') \<and>
   validate_batch_run 0 100 [''max_concurrency'' \<mapsto> 5, ''credits'' \<mapsto> 50] =
     Inl (ValueError ''not enough credits: 100 requested, 50 available (check with: scrapingbee usage)'') \<and>
   (\<nexists>e. validate_batch_run 3 100 [''max_concurrency'' \<mapsto> 5, ''credits'' \<mapsto> 0] = Inl e)"
proof -
  let ?u = "[''max_concurrency'' \<mapsto> 5, ''credits'' \<mapsto> (0::int)]"
  let ?v = "[''max_concurrency'' \<mapsto> 5, ''credits'' \<mapsto> (50::int)]"
  have u: "?u ''max_concurrency'' = Some 5" "?u ''credits'' = Some 0" by simp_all
  have v: "?v ''max_concurrency'' = Some 5" "?v ''credits'' = Some 50" by simp_all
  have a: "validate_batch_run 10 3 ?u =
      Inl (ValueError ''concurrency 10 exceeds your plan limit of 5 (check with: scrapingbee usage)'')"
    using validate_batch_run_raises_iff [where usage = ?u and mc = 5 and cr = 0 and uc = 10 and n = 3] u
    by (simp add: str_int_def digit_def)
  have b: "validate_batch_run 0 100 ?v =
      Inl (ValueError ''not enough credits: 100 requested, 50 available (check with: scrapingbee usage)'')"
    using validate_batch_run_raises_iff [where usage = ?v and mc = 5 and cr = 50 and uc = 0 and n = 100] v
    by (simp add: str_int_def digit_def)
  have c: "\<nexists>e. validate_batch_run 3 100 ?u = Inl e"
    using validate_batch_run_raises_iff [where usage = ?u and mc = 5 and cr = 0 and uc = 3 and n = 100] u
    by simp
  from a b c show ?thesis by blast
qed

section \<open>Properties of the batch executor\<close>

lemma collect_nth:
  assumes "distinct (map fst cs)"
    and "\<forall>(i, x) \<in> set cs. i < length rs \<and> fn x = Inr (g x)"
  shows "\<exists>rs'. collect fn cs rs = Inr rs' \<and> length rs' = length rs \<and>
           (\<forall>k < length rs. rs' ! k =
              (case map_of cs k of Some x \<Rightarrow> Some (result_for k x (g x)) | None \<Rightarrow> rs ! k))"
  using assms
proof (induction cs arbitrary: rs)
  case Nil
  then show ?case by simp
next
  case (Cons c cs)
  obtain i x where c: "c = (i, x)" by (cases c)
  from Cons.prems c have i: "i < length rs" and fx: "fn x = Inr (g x)" by auto
  let ?rs1 = "rs[i := Some (result_for i x (g x))]"
  have step: "collect fn (c # cs) rs = collect fn cs ?rs1"
    using i fx by (simp add: c do_one_def store_result_def result_for_def split: prod.splits)
  have d: "distinct (map fst cs)" and ni: "i \<notin> fst ` set cs"
    using Cons.prems(1) c by auto
  have p: "\<forall>(j, y) \<in> set cs. j < length ?rs1 \<and> fn y = Inr (g y)"
    using Cons.prems(2) by auto
  from Cons.IH[OF d p] obtain rs' where r: "collect fn cs ?rs1 = Inr rs'"
    "length rs' = length ?rs1"
    "\<forall>k < length ?rs1. rs' ! k =
       (case map_of cs k of Some x \<Rightarrow> Some (result_for k x (g x)) | None \<Rightarrow> ?rs1 ! k)"
    by blast
  have mi: "map_of cs i = None" using ni by (simp add: map_of_eq_None_iff)
  show ?case
  proof (intro exI conjI allI impI)
    show "collect fn (c # cs) rs = Inr rs'" using step r(1) by simp
    show "length rs' = length rs" using r(2) by simp
  next
    fix k assume k: "k < length rs"
    show "rs' ! k =
        (case map_of (c # cs) k of Some x \<Rightarrow> Some (result_for k x (g x)) | None \<Rightarrow> rs ! k)"
      using r(3) k i mi by (cases "k = i") (auto simp: c split: option.splits)
  qed
qed

lemma completed_facts:
  assumes "mset completed = mset (enumerate 0 inputs)"
  shows "distinct (map fst completed)"
    and "set completed = set (enumerate 0 inputs)"
    and "\<And>k. k < length inputs \<Longrightarrow> map_of completed k = Some (inputs ! k)"
proof -
  have "mset (map fst completed) = mset (map fst (enumerate 0 inputs))"
    using assms by (metis mset_map)
  then have m: "mset (map fst completed) = mset [0..<length inputs]"
    by simp
  show d: "distinct (map fst completed)"
    using m by (metis distinct_upt mset_eq_imp_distinct_iff)
  show s: "set completed = set (enumerate 0 inputs)"
    using assms by (rule mset_eq_setD)
  fix k assume k: "k < length inputs"
  have "(k, inputs ! k) \<in> set (enumerate 0 inputs)"
    using k by (simp add: in_set_enumerate_eq)
  then have "(k, inputs ! k) \<in> set completed" using s by simp
  then show "map_of completed k = Some (inputs ! k)"
    by (rule map_of_is_SomeI[OF d])
qed

lemma filter_all_Some:
  assumes "\<forall>k < length rs. rs ! k = Some (f k)"
  shows "map the (filter (\<lambda>r. r \<noteq> None) rs) = map f [0..<length rs]"
proof -
  have "\<forall>r \<in> set rs. r \<noteq> None"
    using assms by (auto simp: in_set_conv_nth)
  then have "filter (\<lambda>r. r \<noteq> None) rs = rs"
    by (simp add: filter_id_conv)
  moreover have "map the rs = map f [0..<length rs]"
    using assms by (intro nth_equalityI) auto
  ultimately show ?thesis by simp
qed

text \<open>Every order of the submitted calls is the order of some schedule.\<close>

lemma filter_eq_single:
  assumes "distinct zs" and "k \<in> set zs"
  shows "filter (\<lambda>x. x = k) zs = [k]"
  using assms by (induction zs) (auto simp: filter_empty_conv)

lemma as_completed_any_order:
  assumes "mset order = mset (enumerate 0 inputs)"
  shows "\<exists>finish. as_completed finish (enumerate 0 inputs) = order"
proof -
  define pos where "pos i = length (takeWhile (\<lambda>p. fst p \<noteq> i) order)" for i
  have d: "distinct (map fst order)"
    using completed_facts(1)[OF assms] .
  have pos_nth: "pos (fst (order ! j)) = j" if j: "j < length order" for j
  proof -
    have "takeWhile (\<lambda>p. fst p \<noteq> fst (order ! j)) order = take j order"
    proof (rule takeWhile_eq_take_P_nth)
      fix i assume "i < j" "i < length order"
      then have "map fst order ! i \<noteq> map fst order ! j"
        using d j nth_eq_iff_index_eq[of "map fst order" i j] by simp
      then show "fst (order ! i) \<noteq> fst (order ! j)"
        using \<open>i < length order\<close> j by simp
    next
      show "\<not> fst (order ! j) \<noteq> fst (order ! j)" by simp
    qed
    then show ?thesis using j by (simp add: pos_def)
  qed
  let ?f = "\<lambda>p :: nat \<times> string. pos (fst p)"
  have keys: "map ?f order = [0..<length order]"
    by (rule nth_equalityI) (auto simp: pos_nth)
  have inj: "x = y" if "x \<in> set order" "y \<in> set order" "?f x = ?f y" for x y
  proof -
    from that obtain i where i: "i < length order" "x = order ! i" by (auto simp: in_set_conv_nth)
    from that obtain j where j: "j < length order" "y = order ! j" by (auto simp: in_set_conv_nth)
    from that(3) i j have "i = j" by (simp add: pos_nth)
    then show "x = y" using i j by simp
  qed
  have dist: "distinct order" using d by (simp add: distinct_map)
  have de: "distinct (enumerate 0 inputs)" by (simp add: distinct_enumerate)
  have s: "set (enumerate 0 inputs) = set order" using assms by (metis mset_eq_setD)
  have single: "filter (\<lambda>x. ?f k = ?f x) zs = [k]"
    if "distinct zs" "set zs = set order" "k \<in> set order" for zs k
  proof -
    have "filter (\<lambda>x. ?f k = ?f x) zs = filter (\<lambda>x. x = k) zs"
    proof (rule filter_cong[OF refl])
      fix x assume "x \<in> set zs"
      then have "x \<in> set order" using that(2) by simp
      then show "(?f k = ?f x) = (x = k)" using inj[OF that(3), of x] by auto
    qed
    also have "\<dots> = [k]"
      using that by (intro filter_eq_single) auto
    finally show ?thesis .
  qed
  have "sort_key ?f (enumerate 0 inputs) = order"
  proof (rule properties_for_sort_key)
    show "mset order = mset (enumerate 0 inputs)" by (rule assms)
  next
    fix k assume k: "k \<in> set order"
    show "filter (\<lambda>x. ?f k = ?f x) order = filter (\<lambda>x. ?f k = ?f x) (enumerate 0 inputs)"
      using single[OF dist refl k] single[OF de s k] by simp
  next
    show "sorted (map ?f order)" unfolding keys by simp
  qed
  moreover have "(\<lambda>(i, inp :: string). pos i) = ?f"
    by (simp add: fun_eq_iff)
  ultimately have "as_completed pos (enumerate 0 inputs) = order"
    unfolding as_completed_def by simp
  then show ?thesis by blast
qed

text \<open>
  C1. For a non-empty input list, a concurrency of at least 1 and a worker that returns a
  triple \<open>g x\<close> for every input \<open>x\<close>, \<open>run_batch\<close> returns a list as long as the inputs
  whose \<open>k\<close>-th element has index \<open>k\<close>, input \<open>inputs ! k\<close> and the body, status code and
  error the worker returned for that input. This holds for every schedule \<open>finish\<close>, that
  is for every order in which the submitted calls finish, and the \<open>k\<close>-th element depends
  on the worker's answer for \<open>inputs ! k\<close> alone, so a failure outcome of one item changes
  no other item.
\<close>

theorem run_batch_preserves_order:
  assumes ne: "inputs \<noteq> []" and c: "1 \<le> concurrency"
    and fn: "\<forall>x \<in> set inputs. fn x = Inr (g x)"
  shows "\<exists>rs. run_batch inputs concurrency fn finish = Inr rs \<and>
           length rs = length inputs \<and>
           (\<forall>k < length inputs. rs ! k =
              \<lparr>index = int k, input = inputs ! k, body = fst (g (inputs ! k)),
               status_code = fst (snd (g (inputs ! k))), error = snd (snd (g (inputs ! k)))\<rparr>)"
proof -
  let ?n = "length inputs"
  let ?rs0 = "replicate ?n (None :: BatchResult option)"
  let ?completed = "as_completed finish (enumerate 0 inputs)"
  have sched: "mset ?completed = mset (enumerate 0 inputs)"
    by (simp add: as_completed_def)
  note cf = completed_facts[OF sched]
  have pos: "\<not> pool_size concurrency ?n \<le> 0"
    using ne c by (simp add: pool_size_def min_def)
  have pre: "\<forall>(i, x) \<in> set ?completed. i < length ?rs0 \<and> fn x = Inr (g x)"
    using cf(2) fn by (auto simp: in_set_enumerate_eq)
  from collect_nth[OF cf(1) pre] obtain rs' where r:
    "collect fn ?completed ?rs0 = Inr rs'" "length rs' = ?n"
    "\<forall>k < ?n. rs' ! k =
       (case map_of ?completed k of Some x \<Rightarrow> Some (result_for k x (g x)) | None \<Rightarrow> ?rs0 ! k)"
    by auto
  have all: "\<forall>k < length rs'. rs' ! k = Some (result_for k (inputs ! k) (g (inputs ! k)))"
    using r(2,3) cf(3) by simp
  have out: "run_batch inputs concurrency fn finish =
      Inr (map (\<lambda>k. result_for k (inputs ! k) (g (inputs ! k))) [0..<?n])"
    using pos r(1) filter_all_Some[OF all] r(2) by (simp add: run_batch_def)
  show ?thesis
    unfolding out by (simp add: result_for_def)
qed

theorem run_batch_preserves_order_witness:
  "run_batch [''a'', ''b''] 2
     (\<lambda>x. Inr (if x = ''a'' then ('''', 0, Some (Exn ''boom'')) else (''OK'', 200, None)))
     (\<lambda>i. if i = 0 then 7 else 3) =
   Inr [\<lparr>index = 0, input = ''a'', body = '''', status_code = 0, error = Some (Exn ''boom'')\<rparr>,
        \<lparr>index = 1, input = ''b'', body = ''OK'', status_code = 200, error = None\<rparr>]"
proof -
  let ?g = "\<lambda>x. if x = ''a'' then ('''', 0::int, Some (Exn ''boom'')) else (''OK'', 200, None)"
  let ?fn = "\<lambda>x. Inr (?g x) :: exn + (bytes \<times> int \<times> exn option)"
  let ?finish = "\<lambda>i::nat. if i = 0 then 7 else (3::nat)"
  have h1: "[''a'', ''b''] \<noteq> []" by simp
  have h2: "(1::int) \<le> 2" by simp
  have h3: "\<forall>x \<in> set [''a'', ''b'']. ?fn x = Inr (?g x)" by simp
  from run_batch_preserves_order [where g = ?g and finish = ?finish, OF h1 h2 h3]
  obtain rs where r: "run_batch [''a'', ''b''] 2 ?fn ?finish = Inr rs"
    "length rs = 2"
    "\<forall>k < 2. rs ! k = \<lparr>index = int k, input = [''a'', ''b''] ! k, body = fst (?g ([''a'', ''b''] ! k)),
               status_code = fst (snd (?g ([''a'', ''b''] ! k))), error = snd (snd (?g ([''a'', ''b''] ! k)))\<rparr>"
    by auto
  have "rs ! 0 = \<lparr>index = 0, input = ''a'', body = '''', status_code = 0, error = Some (Exn ''boom'')\<rparr>"
    using r(3) by simp
  moreover have "rs ! 1 = \<lparr>index = 1, input = ''b'', body = ''OK'', status_code = 200, error = None\<rparr>"
    using r(3) by simp
  ultimately have "rs = [\<lparr>index = 0, input = ''a'', body = '''', status_code = 0, error = Some (Exn ''boom'')\<rparr>,
        \<lparr>index = 1, input = ''b'', body = ''OK'', status_code = 200, error = None\<rparr>]"
    using r(2) by (cases rs; cases "tl rs") auto
  then show ?thesis using r(1) by simp
qed

text \<open>
  C2, as stated, fails for a negative concurrency: \<open>concurrency or 1\<close> replaces only 0, so
  with one input and concurrency \<open>-1\<close> the computed pool size is \<open>-1\<close>, where
  \<open>min(max(concurrency, 1), numInputs)\<close> is 1.
\<close>

theorem pool_size_counterexample:
  "pool_size (- 1) (length [''a'']) = - 1 \<and> min (max (- 1) 1) (int (length [''a''])) = 1"
  by (simp add: pool_size_def)

text \<open>
  C2, amended. For a non-empty input list and a concurrency that is not negative, the pool
  size is \<open>min(max(concurrency, 1), numInputs)\<close>: at least one worker, never more workers
  than inputs, and exactly \<open>len(inputs)\<close> when the concurrency exceeds the number of inputs.
\<close>

theorem pool_size_nonnegative:
  assumes "inputs \<noteq> []" and "0 \<le> concurrency"
  shows "pool_size concurrency (length inputs) = min (max concurrency 1) (int (length inputs)) \<and>
         1 \<le> pool_size concurrency (length inputs) \<and>
         pool_size concurrency (length inputs) \<le> int (length inputs) \<and>
         (int (length inputs) < concurrency \<longrightarrow>
            pool_size concurrency (length inputs) = int (length inputs))"
  using assms by (cases inputs) (auto simp: pool_size_def min_def max_def)

theorem pool_size_nonnegative_witness:
  "pool_size 5 (length [''a'', ''b'']) = 2 \<and> pool_size 0 (length [''a'', ''b'']) = 1"
proof -
  have h: "[''a'', ''b''] \<noteq> []" by simp
  show ?thesis
    using pool_size_nonnegative [OF h, of 5] pool_size_nonnegative [OF h, of 0] by simp
qed

text \<open>
  C9. For the empty input list the computed pool size is not positive, whatever the
  concurrency, and the pool constructor raises: \<open>run_batch\<close> returns no empty list.
\<close>

theorem run_batch_empty_raises:
  "pool_size concurrency (length ([] :: string list)) \<le> 0 \<and>
   run_batch [] concurrency fn finish = Inl (ValueError ''max_workers must be greater than 0'')"
  by (simp add: run_batch_def pool_size_def min_def)

section \<open>Properties of usage parsing\<close>

lemma py_trunc_numeral_divide [simp]:
  "py_trunc (numeral a / numeral b) = numeral a div numeral b"
proof -
  have "\<lfloor>rat_of_int (numeral a) / rat_of_int (numeral b)\<rfloor> = numeral a div numeral b"
    by (rule floor_divide_of_int_eq)
  then show ?thesis by (simp add: py_trunc_def)
qed

lemma py_trunc_of_int [simp]: "py_trunc (of_int i) = i"
  by (simp add: py_trunc_def)

lemma py_trunc_numeral [simp]: "py_trunc (numeral a) = numeral a"
  using py_trunc_of_int [of "numeral a"] by simp

lemma py_trunc_one_divide [simp]: "py_trunc (1 / numeral b) = 1 div numeral b"
proof -
  have "\<lfloor>rat_of_int 1 / rat_of_int (numeral b)\<rfloor> = 1 div numeral b"
    by (rule floor_divide_of_int_eq)
  then show ?thesis by (simp add: py_trunc_def)
qed





lemmas usage_eval =
  parse_usage_def concurrency_keys_def credit_keys_def credits_fallback_def items_get_def
  fun_upd_twist






text \<open>
  What holds of every returned usage: \<open>max_concurrency\<close> lies in [0, 10000] and \<open>credits\<close>
  is not negative. The guards of the two loops bound the value before \<open>int()\<close> truncates it.
\<close>

lemma py_int_in_range:
  assumes "is_number v" and "const_less 0 (num_val v)" and "less_eq_const (num_val v) 10000"
    and "py_int v = Inr i"
  shows "0 \<le> i \<and> i \<le> 10000"
proof (cases v)
  case (JFloat f)
  then show ?thesis
  proof (cases f)
    case (Finite r)
    with JFloat assms have r: "0 < r" "r \<le> 10000" and i: "i = \<lfloor>r\<rfloor>"
      by (auto simp: py_trunc_def)
    have "\<lfloor>r\<rfloor> \<le> \<lfloor>10000 :: rat\<rfloor>" using r(2) by (rule floor_mono)
    then show ?thesis using r i by simp
  qed (use JFloat assms in auto)
qed (use assms in \<open>auto split: if_splits\<close>)

lemma py_int_nonneg:
  assumes "is_number v" and "greater_eq_const (num_val v) 0" and "py_int v = Inr i"
  shows "0 \<le> i"
proof (cases v)
  case (JFloat f)
  then show ?thesis using assms by (cases f) (auto simp: py_trunc_def)
qed (use assms in \<open>auto split: if_splits\<close>)

lemma concurrency_loop_range:
  assumes "concurrency_loop m keys out = Inr out'"
  shows "out' = out \<or> (\<exists>i. 0 \<le> i \<and> i \<le> 10000 \<and> out' = out(''max_concurrency'' \<mapsto> i))"
  using assms
proof (induction keys)
  case Nil
  then show ?case by simp
next
  case (Cons k keys)
  then show ?case
    by (auto split: sum.splits if_splits dest: py_int_in_range)
qed

lemma credits_loop_range:
  assumes "credits_loop m keys out = Inr (Some out')"
  shows "\<exists>i. 0 \<le> i \<and> out' = out(''credits'' \<mapsto> i)"
  using assms
proof (induction keys)
  case Nil
  then show ?case by simp
next
  case (Cons k keys)
  then show ?case
    by (auto split: sum.splits if_splits dest: py_int_nonneg)
qed

lemma credits_fallback_range:
  assumes "credits_fallback m out = Inr out'"
  shows "out' = out \<or> (\<exists>i. 0 \<le> i \<and> out' = out(''credits'' \<mapsto> i))"
proof -
  have "0 \<le> a - b \<Longrightarrow> \<exists>i. 0 \<le> i \<and> out(''credits'' \<mapsto> a - b) = out(''credits'' \<mapsto> i)"
    for a b :: int by blast
  then show ?thesis using assms
    by (auto simp: credits_fallback_def Let_def split: sum.splits if_splits)
qed

lemma parse_usage_nonnegative:
  assumes "parse_usage loads data = Inr u"
  shows "\<exists>mc cr. u ''max_concurrency'' = Some mc \<and> 0 \<le> mc \<and> mc \<le> 10000 \<and>
                 u ''credits'' = Some cr \<and> 0 \<le> cr"
proof (cases "loads data")
  case (Inl e)
  with assms show ?thesis by (auto simp: parse_usage_def split: if_splits)
next
  case (Inr m)
  let ?out = "[''max_concurrency'' \<mapsto> 5, ''credits'' \<mapsto> (0::int)]"
  from assms Inr obtain out1 where o1: "concurrency_loop m concurrency_keys ?out = Inr out1"
    by (auto simp: parse_usage_def split: sum.splits)
  from concurrency_loop_range[OF o1]
  have r1: "\<exists>mc. out1 ''max_concurrency'' = Some mc \<and> 0 \<le> mc \<and> mc \<le> 10000"
    and c1: "out1 ''credits'' = Some 0" by auto
  from assms Inr o1 consider
    (loop) "credits_loop m credit_keys out1 = Inr (Some u)"
    | (fb) "credits_fallback m out1 = Inr u"
    by (auto simp: parse_usage_def split: sum.splits option.splits)
  then show ?thesis
  proof cases
    case loop
    from credits_loop_range[OF loop] r1 show ?thesis by auto
  next
    case fb
    from credits_fallback_range[OF fb] r1 c1 show ?thesis by auto
  qed
qed

text \<open>
  C7 fails on the body \<open>{"max_concurrency": 0.5}\<close>: the value passes the guard
  \<open>0 < v <= 10000\<close> and \<open>int(0.5)\<close> is 0, so \<open>parse_usage\<close> returns \<open>max_concurrency\<close> 0,
  and \<open>resolve_batch_concurrency\<close> with a requested concurrency of 0 returns 0 for it.
\<close>

theorem parse_usage_fraction_yields_zero:
  \<open>parse_usage loads_example ''{"max_concurrency": 0.5}'' =
     Inr [''max_concurrency'' \<mapsto> 0, ''credits'' \<mapsto> 0] \<and>
   resolve_batch_concurrency 0 [''max_concurrency'' \<mapsto> 0, ''credits'' \<mapsto> 0] 1 = 0\<close>
  by (simp add: usage_eval loads_example_def resolve_batch_concurrency_def dict_get_def)

section \<open>Properties of the input reader\<close>


lemma isspace_breaks [simp]: "isspace 10" "isspace 13"
  by (simp_all add: isspace_def)

lemma strip_Nil [simp]: "strip [] = []"
  by (simp add: strip_def)

lemma strip_eq_Nil_iff: "strip s = [] \<longleftrightarrow> (\<forall>c \<in> set s. isspace c)"
proof
  assume "strip s = []"
  then have "dropWhile isspace (rev (dropWhile isspace s)) = []" by (simp add: strip_def)
  then have "\<forall>c \<in> set (dropWhile isspace s). isspace c"
    by (simp add: dropWhile_eq_Nil_conv)
  then have "dropWhile isspace s = []"
    by (metis hd_dropWhile list.set_sel(1))
  then show "\<forall>c \<in> set s. isspace c" by (simp add: dropWhile_eq_Nil_conv)
next
  assume "\<forall>c \<in> set s. isspace c"
  then have d: "dropWhile isspace s = []" by (simp add: dropWhile_eq_Nil_conv)
  show "strip s = []" by (simp add: strip_def d)
qed

lemma strip_append_newline [simp]: "strip (s @ [10]) = strip s"
proof (cases "\<forall>c \<in> set s. isspace c")
  case True
  then have "strip (s @ [10]) = []" "strip s = []"
    by (simp_all add: strip_eq_Nil_iff)
  then show ?thesis by simp
next
  case False
  then have "dropWhile isspace (s @ [10]) = dropWhile isspace s @ [10]"
    by (auto simp: dropWhile_append)
  then show ?thesis by (simp add: strip_def)
qed

lemma strip_newline [simp]: "strip [10] = []"
  by (simp add: strip_eq_Nil_iff)

text \<open>What \<open>strip\<close> removes is whitespace, and what it leaves has none at either end.\<close>

lemma strip_decompose:
  "\<exists>a b. s = a @ strip s @ b \<and> (\<forall>c \<in> set a. isspace c) \<and> (\<forall>c \<in> set b. isspace c)"
proof -
  let ?a = "takeWhile isspace s"
  let ?r = "rev (dropWhile isspace s)"
  let ?b = "rev (takeWhile isspace ?r)"
  have "s = ?a @ dropWhile isspace s" by simp
  moreover have "dropWhile isspace s = rev ?r" by simp
  moreover have "?r = takeWhile isspace ?r @ dropWhile isspace ?r" by simp
  then have "rev ?r = rev (dropWhile isspace ?r) @ ?b" by (metis rev_append)
  ultimately have "s = ?a @ strip s @ ?b" by (simp add: strip_def)
  moreover have "\<forall>c \<in> set ?a. isspace c" by (auto dest: set_takeWhileD)
  moreover have "\<forall>c \<in> set ?b. isspace c" by (auto dest: set_takeWhileD)
  ultimately show ?thesis by blast
qed

lemma strip_ends:
  assumes "strip s \<noteq> []"
  shows "\<not> isspace (hd (strip s)) \<and> \<not> isspace (last (strip s))"
proof -
  let ?d = "dropWhile isspace s"
  let ?e = "dropWhile isspace (rev ?d)"
  have e: "?e \<noteq> []" using assms by (simp add: strip_def)
  then have l: "\<not> isspace (hd ?e)" by (rule_tac hd_dropWhile)
  have d: "?d \<noteq> []" using e by (cases "?d = []") simp_all
  then have hd: "\<not> isspace (hd ?d)" by (rule_tac hd_dropWhile)
  have "last (strip s) = hd ?e" using e by (simp add: strip_def last_rev)
  moreover have "hd (strip s) = last ?e" using e by (simp add: strip_def hd_rev)
  moreover have "last ?e = last (rev ?d)"
    using e by (metis append_Nil2 last_appendR takeWhile_dropWhile_id)
  moreover have "last (rev ?d) = hd ?d" using d by (simp add: last_rev)
  ultimately show ?thesis using l hd by simp
qed

lemma nonempty_stripped_simps [simp]:
  "nonempty_stripped [] = []"
  "nonempty_stripped (l # ls) = (if strip l = [] then nonempty_stripped ls else strip l # nonempty_stripped ls)"
  by (simp_all add: nonempty_stripped_def)

lemma readlines_split_lines:
  "(cs = [] \<longrightarrow> readlines cs = []) \<and>
   (cs \<noteq> [] \<longrightarrow> (\<exists>l ls l' ls'. readlines cs = l # ls \<and> split_lines cs = l' # ls' \<and>
       (l = l' \<or> l = l' @ [10]) \<and> nonempty_stripped ls = nonempty_stripped ls'))"
proof (induction cs rule: readlines.induct)
  case 1
  then show ?case by simp
next
  case (2 c cs)
  consider (crlf) "c = 13" "cs \<noteq> []" "hd cs = 10"
    | (brk) "c = 10 \<or> c = 13" "\<not> (c = 13 \<and> cs \<noteq> [] \<and> hd cs = 10)"
    | (chr) "c \<noteq> 10" "c \<noteq> 13" by blast
  then show ?case
  proof cases
    case crlf
    then obtain cs' where cs: "cs = 10 # cs'" by (cases cs) auto
    have ih: "(cs' = [] \<longrightarrow> readlines cs' = []) \<and>
       (cs' \<noteq> [] \<longrightarrow> (\<exists>l ls l' ls'. readlines cs' = l # ls \<and> split_lines cs' = l' # ls' \<and>
       (l = l' \<or> l = l' @ [10]) \<and> nonempty_stripped ls = nonempty_stripped ls'))"
      using 2(1) crlf cs by simp
    have "nonempty_stripped (readlines cs') = nonempty_stripped (split_lines cs')"
    proof (cases "cs' = []")
      case True
      then show ?thesis using ih by simp
    next
      case False
      with ih obtain l ls l' ls' where "readlines cs' = l # ls" "split_lines cs' = l' # ls'"
        "l = l' \<or> l = l' @ [10]" "nonempty_stripped ls = nonempty_stripped ls'" by blast
      then show ?thesis by auto
    qed
    then show ?thesis using crlf cs by simp
  next
    case brk
    have ih: "(cs = [] \<longrightarrow> readlines cs = []) \<and>
       (cs \<noteq> [] \<longrightarrow> (\<exists>l ls l' ls'. readlines cs = l # ls \<and> split_lines cs = l' # ls' \<and>
       (l = l' \<or> l = l' @ [10]) \<and> nonempty_stripped ls = nonempty_stripped ls'))"
      using 2(2) brk by blast
    have "nonempty_stripped (readlines cs) = nonempty_stripped (split_lines cs)"
    proof (cases "cs = []")
      case True
      then show ?thesis using ih by simp
    next
      case False
      with ih obtain l ls l' ls' where "readlines cs = l # ls" "split_lines cs = l' # ls'"
        "l = l' \<or> l = l' @ [10]" "nonempty_stripped ls = nonempty_stripped ls'" by blast
      then show ?thesis by auto
    qed
    then show ?thesis using brk by auto
  next
    case chr
    have ih: "(cs = [] \<longrightarrow> readlines cs = []) \<and>
       (cs \<noteq> [] \<longrightarrow> (\<exists>l ls l' ls'. readlines cs = l # ls \<and> split_lines cs = l' # ls' \<and>
       (l = l' \<or> l = l' @ [10]) \<and> nonempty_stripped ls = nonempty_stripped ls'))"
      using 2(3) chr by blast
    show ?thesis
    proof (cases "cs = []")
      case True
      then show ?thesis using chr by simp
    next
      case False
      with ih obtain l ls l' ls' where "readlines cs = l # ls" "split_lines cs = l' # ls'"
        "l = l' \<or> l = l' @ [10]" "nonempty_stripped ls = nonempty_stripped ls'" by blast
      then show ?thesis using chr by auto
    qed
  qed
qed

lemma nonempty_stripped_readlines: "nonempty_stripped (readlines cs) = nonempty_stripped (split_lines cs)"
proof (cases "cs = []")
  case True
  then show ?thesis by simp
next
  case False
  with readlines_split_lines[of cs] obtain l ls l' ls' where
    "readlines cs = l # ls" "split_lines cs = l' # ls'"
    "l = l' \<or> l = l' @ [10]" "nonempty_stripped ls = nonempty_stripped ls'" by blast
  then show ?thesis by auto
qed

lemma split_lines_not_Nil [simp]: "split_lines cs \<noteq> []"
  by (induction cs) (auto split: list.splits)

lemma set_split_lines:
  "set cs = \<Union> (set ` set (split_lines cs)) \<union> (set cs \<inter> {10, 13})"
proof (induction cs)
  case Nil
  then show ?case by simp
next
  case (Cons c cs)
  obtain l ls where s: "split_lines cs = l # ls" by (cases "split_lines cs") auto
  show ?case using Cons s by (auto split: list.splits)
qed

lemma nonempty_stripped_eq_Nil_iff: "nonempty_stripped ls = [] \<longleftrightarrow> (\<forall>l \<in> set ls. \<forall>c \<in> set l. isspace c)"
  by (induction ls) (auto simp: strip_eq_Nil_iff)

lemma nonempty_stripped_split_lines_Nil_iff:
  "nonempty_stripped (split_lines cs) = [] \<longleftrightarrow> (\<forall>c \<in> set cs. isspace c)"
proof -
  have "(\<forall>l \<in> set (split_lines cs). \<forall>c \<in> set l. isspace c) \<longleftrightarrow> (\<forall>c \<in> set cs. isspace c)"
    (is "?L \<longleftrightarrow> ?R")
  proof
    assume l: ?L
    show ?R
    proof
      fix c assume "c \<in> set cs"
      then have "c \<in> \<Union> (set ` set (split_lines cs)) \<or> c \<in> {10, 13}"
        using set_split_lines[of cs] by blast
      then show "isspace c" using l by auto
    qed
  next
    assume ?R
    then show ?L using set_split_lines[of cs] by blast
  qed
  then show ?thesis by (simp add: nonempty_stripped_eq_Nil_iff)
qed


lemma nonempty_stripped_filter_map:
  "nonempty_stripped ls = filter (\<lambda>l. l \<noteq> []) (map strip ls)"
  by (induction ls) simp_all

text \<open>
  C6. When the file opens and decodes to \<open>content\<close>, \<open>read_input_file\<close> returns the
  lines of the content in order, each stripped, without those that strip to the empty
  string; it raises the error \<open>input file "<path>" has no non-empty lines\<close> exactly when
  no line remains, which is exactly when the content is empty or all whitespace. What
  \<open>strip\<close> removes from a line is whitespace at its two ends, and what it leaves neither
  starts nor ends with whitespace.
\<close>

theorem read_input_file_lines:
  assumes "read_text path = Inr content"
  shows \<open>read_input_file read_text path =
           (if \<forall>c \<in> set content. isspace c
            then Inl (ValueError (''input file "'' @ path @ ''" has no non-empty lines''))
            else Inr (filter (\<lambda>l. l \<noteq> []) (map strip (split_lines content)))) \<and>
         ((\<exists>e. read_input_file read_text path = Inl e) \<longleftrightarrow>
            filter (\<lambda>l. l \<noteq> []) (map strip (split_lines content)) = []) \<and>
         (\<forall>l. \<exists>a b. l = a @ strip l @ b \<and> (\<forall>c \<in> set a. isspace c) \<and> (\<forall>c \<in> set b. isspace c) \<and>
            (strip l \<noteq> [] \<longrightarrow> \<not> isspace (hd (strip l)) \<and> \<not> isspace (last (strip l))))\<close>
proof (intro conjI allI)
  let ?ls = "filter (\<lambda>l. l \<noteq> []) (map strip (split_lines content))"
  have eq: "nonempty_stripped (readlines content) = ?ls"
    using nonempty_stripped_readlines[of content]
    by (simp only: nonempty_stripped_filter_map)
  have nil: "?ls = [] \<longleftrightarrow> (\<forall>c \<in> set content. isspace c)"
    using nonempty_stripped_split_lines_Nil_iff[of content]
    by (simp only: nonempty_stripped_filter_map)
  show r: \<open>read_input_file read_text path =
           (if \<forall>c \<in> set content. isspace c
            then Inl (ValueError (''input file "'' @ path @ ''" has no non-empty lines''))
            else Inr ?ls)\<close>
    unfolding read_input_file_def assms sum.case Let_def eq using nil by simp
  show "(\<exists>e. read_input_file read_text path = Inl e) \<longleftrightarrow> ?ls = []"
    unfolding r nil by simp
next
  fix l
  from strip_decompose[of l] strip_ends[of l]
  show "\<exists>a b. l = a @ strip l @ b \<and> (\<forall>c \<in> set a. isspace c) \<and> (\<forall>c \<in> set b. isspace c) \<and>
            (strip l \<noteq> [] \<longrightarrow> \<not> isspace (hd (strip l)) \<and> \<not> isspace (last (strip l)))"
    by blast
qed

theorem read_input_file_lines_witness:
  \<open>read_input_file (\<lambda>p. Inr [32, 32, 97, 32, 10, 10, 32, 98, 10, 9, 10]) ''in.txt'' =
     Inr [[97], [98]] \<and>
   read_input_file (\<lambda>p. Inr []) ''in.txt'' =
     Inl (ValueError ''input file "in.txt" has no non-empty lines'') \<and>
   read_input_file (\<lambda>p. Inr [32, 13, 10, 9, 10]) ''in.txt'' =
     Inl (ValueError ''input file "in.txt" has no non-empty lines'')\<close>
proof -
  have a: "read_input_file (\<lambda>p. Inr [32, 32, 97, 32, 10, 10, 32, 98, 10, 9, 10]) ''in.txt'' =
     Inr [[97], [98]]"
    using read_input_file_lines [where read_text = "\<lambda>p. Inr [32, 32, 97, 32, 10, 10, 32, 98, 10, 9, 10]"
        and path = "''in.txt''", OF refl]
    by (simp add: isspace_def strip_def)
  have b: \<open>read_input_file (\<lambda>p. Inr []) ''in.txt'' =
     Inl (ValueError ''input file "in.txt" has no non-empty lines'')\<close>
    using read_input_file_lines [where read_text = "\<lambda>p. Inr []" and path = "''in.txt''", OF refl]
    by simp
  have c: \<open>read_input_file (\<lambda>p. Inr [32, 13, 10, 9, 10]) ''in.txt'' =
     Inl (ValueError ''input file "in.txt" has no non-empty lines'')\<close>
    using read_input_file_lines [where read_text = "\<lambda>p. Inr [32, 13, 10, 9, 10]"
        and path = "''in.txt''", OF refl]
    by (simp add: isspace_def)
  from a b c show ?thesis by blast
qed

section \<open>Properties of the result writer\<close>

text \<open>Decimal rendering is injective, and no rendering starts with a slash.\<close>


lemma digit_inj:
  assumes "d < 10" and "e < 10" and "digit d = digit e"
  shows "d = e"
proof -
  have "distinct ''0123456789''" by simp
  moreover have "d < length ''0123456789''" "e < length ''0123456789''" using assms by simp_all
  ultimately show ?thesis using assms(3) unfolding digit_def
    by (metis nth_eq_iff_index_eq)
qed

lemma digit_mem: "d < 10 \<Longrightarrow> digit d \<in> set ''0123456789''"
  unfolding digit_def by (rule nth_mem) simp

lemma str_nat_digits: "set (str_nat n) \<subseteq> set ''0123456789''"
proof (induction n rule: str_nat.induct)
  case (1 n)
  show ?case
  proof (cases "n < 10")
    case True
    then show ?thesis using digit_mem[of n] by (subst str_nat.simps) (simp del: str_nat.simps)
  next
    case False
    have "n mod 10 < 10" by simp
    then have "digit (n mod 10) \<in> set ''0123456789''" by (rule digit_mem)
    then show ?thesis using False 1 by (subst str_nat.simps) (simp del: str_nat.simps)
  qed
qed

lemma str_nat_not_Nil: "str_nat n \<noteq> []"
  by (subst str_nat.simps) (simp del: str_nat.simps)

lemma str_nat_inj: "str_nat n = str_nat m \<Longrightarrow> n = m"
proof (induction n arbitrary: m rule: str_nat.induct)
  case (1 n)
  show ?case
  proof (cases "n < 10")
    case n: True
    show ?thesis
    proof (cases "m < 10")
      case True
      with n 1(2) have "digit n = digit m"
        by (subst (asm) str_nat.simps, subst (asm) (2) str_nat.simps) (simp del: str_nat.simps)
      then show ?thesis using n True by (rule_tac digit_inj)
    next
      case False
      have "length (str_nat n) = 1" using n by (subst str_nat.simps) (simp del: str_nat.simps)
      moreover have "length (str_nat m) \<ge> 2"
        using False str_nat_not_Nil[of "m div 10"]
        by (subst str_nat.simps) (cases "str_nat (m div 10)"; simp del: str_nat.simps)
      ultimately show ?thesis using 1(2) by simp
    qed
  next
    case n: False
    show ?thesis
    proof (cases "m < 10")
      case True
      have "length (str_nat m) = 1" using True by (subst str_nat.simps) (simp del: str_nat.simps)
      moreover have "length (str_nat n) \<ge> 2"
        using n str_nat_not_Nil[of "n div 10"]
        by (subst str_nat.simps) (cases "str_nat (n div 10)"; simp del: str_nat.simps)
      ultimately show ?thesis using 1(2) by simp
    next
      case False
      have en: "str_nat n = str_nat (n div 10) @ [digit (n mod 10)]"
        using n by (subst str_nat.simps) (simp del: str_nat.simps)
      have em: "str_nat m = str_nat (m div 10) @ [digit (m mod 10)]"
        using False by (subst str_nat.simps) (simp del: str_nat.simps)
      from 1(2) en em have a: "str_nat (n div 10) = str_nat (m div 10)"
        and b: "digit (n mod 10) = digit (m mod 10)" by simp_all
      from 1(1)[OF n a] have "n div 10 = m div 10" .
      moreover from b have "n mod 10 = m mod 10" by (rule_tac digit_inj) simp_all
      ultimately show ?thesis by (metis div_mult_mod_eq)
    qed
  qed
qed

lemma str_int_inj: "str_int i = str_int j \<Longrightarrow> i = j"
proof -
  assume e: "str_int i = str_int j"
  have nm: "CHR ''-'' # xs \<noteq> str_nat n" for xs n
  proof
    assume "CHR ''-'' # xs = str_nat n"
    then have "CHR ''-'' \<in> set (str_nat n)" by (metis list.set_intros(1))
    then show False using str_nat_digits[of n] by (auto simp del: str_nat.simps)
  qed
  show ?thesis
  proof (cases "i < 0"; cases "j < 0")
    assume "i < 0" "j < 0"
    with e have "nat (- i) = nat (- j)" by (simp add: str_int_def str_nat_inj del: str_nat.simps)
    then show ?thesis using \<open>i < 0\<close> \<open>j < 0\<close> by simp
  next
    assume "i < 0" "\<not> j < 0"
    then show ?thesis using e nm by (simp add: str_int_def del: str_nat.simps)
  next
    assume "\<not> i < 0" "j < 0"
    then show ?thesis using e nm[symmetric] by (simp add: str_int_def del: str_nat.simps)
  next
    assume "\<not> i < 0" "\<not> j < 0"
    with e have "nat i = nat j" by (simp add: str_int_def str_nat_inj del: str_nat.simps)
    then show ?thesis using \<open>\<not> i < 0\<close> \<open>\<not> j < 0\<close> by simp
  qed
qed

lemma str_int_no_slash: "str_int i \<noteq> [] \<and> hd (str_int i) \<noteq> CHR ''/''"
proof -
  have a: "str_nat n \<noteq> [] \<and> hd (str_nat n) \<noteq> CHR ''/''" for n
  proof -
    have "hd (str_nat n) \<in> set (str_nat n)" by (rule hd_in_set) (rule str_nat_not_Nil)
    then have "hd (str_nat n) \<in> set ''0123456789''" using str_nat_digits by blast
    then show ?thesis using str_nat_not_Nil[of n] by (auto simp del: str_nat.simps)
  qed
  show ?thesis using a by (simp add: str_int_def del: str_nat.simps)
qed

text \<open>The file names of the writer: distinct numbers and distinct suffixes give distinct paths.\<close>

lemma path_join_name:
  "path_join a (str_int i @ ext) =
     (if a = [] \<or> last a = CHR ''/'' then a else a @ ''/'') @ str_int i @ ext"
  using str_int_no_slash[of i] by (cases "str_int i") (auto simp: path_join_def simp del: str_nat.simps)

lemma path_join_name_inj:
  assumes "path_join a (str_int i @ e1) = path_join a (str_int j @ e2)"
    and "length e1 = length e2"
  shows "i = j \<and> e1 = e2"
proof -
  from assms(1) have "str_int i @ e1 = str_int j @ e2"
    by (simp add: path_join_name del: str_nat.simps)
  with assms(2) have "str_int i = str_int j \<and> e1 = e2"
    by (metis append_eq_append_conv)
  then show ?thesis using str_int_inj by blast
qed

lemma path_join_name_neq: "path_join a (str_int i @ ext) \<noteq> a"
proof
  assume "path_join a (str_int i @ ext) = a"
  then have "length (path_join a (str_int i @ ext)) = length a" by simp
  then show False using str_int_no_slash[of i]
    by (simp add: path_join_name del: str_nat.simps split: if_splits)
qed

end
